theory Spec2Isabelle
  imports Complex_Main "HOL-Library.Sublist"
begin

section \<open>Python strings\<close>

text \<open>
  A Python \<open>str\<close> is modelled as a \<open>string\<close> whose characters are the code points
  0..255. The source file \<open>utils/post_processor.py\<close> writes most of its escapes with a
  doubled backslash (\<open>"\\n"\<close>, \<open>r"^#+\\s"\<close>), so its literals contain real backslash
  characters; they are transcribed here character for character, with \<open>BSL\<close> for the
  backslash and \<open>NL\<close> for the line feed.
\<close>

abbreviation BSL :: char where "BSL \<equiv> CHR 0x5C"
abbreviation NL :: char where "NL \<equiv> CHR 0x0A"

definition code :: "char \<Rightarrow> nat" where
  "code c = of_char c"

text \<open>\<open>str.isspace\<close> on one character, which is also what \<open>strip\<close>, \<open>split()\<close> and the
  regular expression class \<open>\s\<close> use: TAB..CR, FS..US, space, NEL and NBSP.\<close>

definition isspace :: "char \<Rightarrow> bool" where
  "isspace c = ((9 \<le> code c \<and> code c \<le> 13) \<or> (28 \<le> code c \<and> code c \<le> 32)
     \<or> code c = 133 \<or> code c = 160)"

definition isdecimal :: "char \<Rightarrow> bool" where
  "isdecimal c = (48 \<le> code c \<and> code c \<le> 57)"

definition isascii_letter :: "char \<Rightarrow> bool" where
  "isascii_letter c = ((65 \<le> code c \<and> code c \<le> 90) \<or> (97 \<le> code c \<and> code c \<le> 122))"

text \<open>The regular expression class \<open>\w\<close>: \<open>str.isalnum\<close> or an underscore.\<close>

definition isword :: "char \<Rightarrow> bool" where
  "isword c = (isdecimal c \<or> isascii_letter c \<or> code c = 95
     \<or> code c = 170 \<or> code c = 178 \<or> code c = 179 \<or> code c = 181 \<or> code c = 185
     \<or> code c = 186 \<or> (188 \<le> code c \<and> code c \<le> 190) \<or> (192 \<le> code c \<and> code c \<le> 214)
     \<or> (216 \<le> code c \<and> code c \<le> 246) \<or> 248 \<le> code c)"

definition lstrip :: "string \<Rightarrow> string" where
  "lstrip s = dropWhile isspace s"

definition rstrip :: "string \<Rightarrow> string" where
  "rstrip s = rev (dropWhile isspace (rev s))"

definition strip :: "string \<Rightarrow> string" where
  "strip s = lstrip (rstrip s)"

definition startswith :: "string \<Rightarrow> string \<Rightarrow> bool" where
  "startswith s pre = prefix pre s"

definition endswith :: "string \<Rightarrow> string \<Rightarrow> bool" where
  "endswith s suf = suffix suf s"

text \<open>\<open>s.split(sep)\<close> for a non-empty separator: the pieces between the occurrences of
  \<open>sep\<close>, found from the left without overlap. Both separators of the source are
  non-empty literals (Python raises \<open>ValueError\<close> on an empty one).\<close>

function split_from :: "string \<Rightarrow> string \<Rightarrow> string \<Rightarrow> string list" where
  "split_from sep acc [] = [rev acc]"
| "split_from sep acc (c # cs) =
     (if sep \<noteq> [] \<and> startswith (c # cs) sep
      then rev acc # split_from sep [] (drop (length sep) (c # cs))
      else split_from sep (c # acc) cs)"
  by pat_completeness auto
termination
  by (relation "measure (\<lambda>(sep, acc, s). length s)") (auto simp: startswith_def)

definition str_split :: "string \<Rightarrow> string \<Rightarrow> string list" where
  "str_split s sep = split_from sep [] s"

text \<open>\<open>s.split()\<close>: the maximal runs of non-whitespace characters.\<close>

fun words_from :: "string \<Rightarrow> string \<Rightarrow> string list" where
  "words_from acc [] = (if acc = [] then [] else [rev acc])"
| "words_from acc (c # cs) =
     (if isspace c then (if acc = [] then words_from [] cs else rev acc # words_from [] cs)
      else words_from (c # acc) cs)"

definition split_ws :: "string \<Rightarrow> string list" where
  "split_ws s = words_from [] s"

text \<open>\<open>sep.join(xs)\<close>.\<close>

fun str_join :: "string \<Rightarrow> string list \<Rightarrow> string" where
  "str_join sep [] = []"
| "str_join sep [x] = x"
| "str_join sep (x # y # zs) = x @ sep @ str_join sep (y # zs)"

section \<open>The regular expressions of Python's \<open>re\<close>\<close>

text \<open>
  The pipeline calls \<open>re.match\<close>, \<open>re.search\<close> and \<open>re.sub\<close> on pattern strings: its
  own literals and the strings of the profile. The model parses a pattern string into a
  syntax tree and matches by backtracking, alternatives in priority order. It covers the
  syntax the repository's patterns use: literals, \<open>.\<close>, \<open>^\<close>, \<open>$\<close>, character sets,
  the escapes \<open>\d \s \w \b\<close> and their complements, groups, alternation and the greedy
  quantifiers \<open>* + ? {m,n}\<close>. A pattern Python rejects gives \<open>ReError\<close> (Python's
  \<open>re.error\<close>) or, for a repetition count of \<open>2^32 - 1\<close> or more, \<open>OverflowError\<close>;
  the first error from the left is the one reported. Syntax outside the covered
  fragment gives \<open>Unsupported\<close>: lazy and possessive quantifiers, \<open>(?\<close> groups,
  numeric and named escapes, and groups nested deeper than 100 (the parser's recursion
  limit is not modelled). The matcher follows CPython 3.11.
\<close>

datatype error = ReError | OverflowError | Unsupported

datatype citem = CChar char | CRange char char
  | CDigit | CSpace | CWord | CNotDigit | CNotSpace | CNotWord

datatype regex =
    Lit char
  | AnyChar
  | CharSet bool "citem list"
  | AtBegin
  | AtEnd
  | WordBoundary
  | NotWordBoundary
  | Eps
  | Seq regex regex
  | Alt regex regex
  | Repeat nat "nat option" regex
  | Group nat regex

subsection \<open>Parsing a pattern\<close>

datatype token = TAtom regex | TOpen | TClose | TBar | TQuant nat "nat option"

definition control_escape :: "char \<Rightarrow> char option" where
  "control_escape c =
     (if c = CHR ''n'' then Some NL
      else if c = CHR ''t'' then Some (CHR 0x09)
      else if c = CHR ''r'' then Some (CHR 0x0D)
      else if c = CHR ''f'' then Some (CHR 0x0C)
      else if c = CHR ''v'' then Some (CHR 0x0B)
      else if c = CHR ''a'' then Some (CHR 0x07)
      else None)"

definition class_escape :: "char \<Rightarrow> citem option" where
  "class_escape c =
     (if c = CHR ''d'' then Some CDigit
      else if c = CHR ''D'' then Some CNotDigit
      else if c = CHR ''s'' then Some CSpace
      else if c = CHR ''S'' then Some CNotSpace
      else if c = CHR ''w'' then Some CWord
      else if c = CHR ''W'' then Some CNotWord
      else None)"

text \<open>A backslash and the character after it, outside a character set.\<close>

definition escape_atom :: "char \<Rightarrow> error + regex" where
  "escape_atom c =
     (case class_escape c of
        Some it \<Rightarrow> Inr (CharSet False [it])
      | None \<Rightarrow>
          (case control_escape c of
             Some k \<Rightarrow> Inr (Lit k)
           | None \<Rightarrow>
               if c = CHR ''b'' then Inr WordBoundary
               else if c = CHR ''B'' then Inr NotWordBoundary
               else if c = CHR ''A'' then Inr AtBegin
               else if isdecimal c \<or> c \<in> set ''ZxuUN'' then Inl Unsupported
               else if isascii_letter c then Inl ReError
               else Inr (Lit c)))"

text \<open>A backslash and the character after it, inside a character set.\<close>

definition escape_item :: "char \<Rightarrow> error + citem" where
  "escape_item c =
     (case class_escape c of
        Some it \<Rightarrow> Inr it
      | None \<Rightarrow>
          (case control_escape c of
             Some k \<Rightarrow> Inr (CChar k)
           | None \<Rightarrow>
               if c = CHR ''b'' then Inr (CChar (CHR 0x08))
               else if isdecimal c \<or> c \<in> set ''xuUN'' then Inl Unsupported
               else if isascii_letter c then Inl ReError
               else Inr (CChar c)))"

text \<open>The body of a character set up to its closing bracket: the members as written
  (a bare \<open>-\<close> kept apart, since it may form a range), and the text after the bracket.\<close>

datatype catom = AItem citem | ADash

fun class_atoms :: "string \<Rightarrow> error + (catom list \<times> string)" where
  "class_atoms [] = Inl ReError"
| "class_atoms (c # cs) =
     (if c = CHR '']'' then Inr ([], cs)
      else if c = BSL then
        (case cs of
           [] \<Rightarrow> Inl ReError
         | e # cs' \<Rightarrow>
             (case escape_item e of
                Inl err \<Rightarrow> Inl err
              | Inr it \<Rightarrow>
                  (case class_atoms cs' of
                     Inl err \<Rightarrow> Inl err
                   | Inr (as, rest) \<Rightarrow> Inr (AItem it # as, rest))))
      else
        (case class_atoms cs of
           Inl err \<Rightarrow> Inl err
         | Inr (as, rest) \<Rightarrow>
             Inr ((if c = CHR ''-'' then ADash else AItem (CChar c)) # as, rest)))"

fun atom_item :: "catom \<Rightarrow> citem" where
  "atom_item ADash = CChar (CHR ''-'')"
| "atom_item (AItem it) = it"

fun class_items :: "catom list \<Rightarrow> error + citem list" where
  "class_items [] = Inr []"
| "class_items (x # ADash # y # rest) =
     (case (atom_item x, atom_item y) of
        (CChar lo, CChar hi) \<Rightarrow>
          if code lo \<le> code hi
          then (case class_items rest of Inl err \<Rightarrow> Inl err | Inr its \<Rightarrow> Inr (CRange lo hi # its))
          else Inl ReError
      | _ \<Rightarrow> Inl ReError)"
| "class_items (x # rest) =
     (case class_items rest of Inl err \<Rightarrow> Inl err | Inr its \<Rightarrow> Inr (atom_item x # its))"

definition digits_value :: "string \<Rightarrow> nat" where
  "digits_value ds = foldl (\<lambda>n d. 10 * n + (code d - 48)) 0 ds"

text \<open>The text after an opening brace: a repetition \<open>{m}\<close>, \<open>{m,}\<close>, \<open>{,n}\<close> or
  \<open>{m,n}\<close> and what follows it, or \<open>None\<close> when the brace is an ordinary character.\<close>

definition scan_brace :: "string \<Rightarrow> ((nat \<times> nat option) \<times> string) option" where
  "scan_brace cs =
     (let lo = takeWhile isdecimal cs; r1 = dropWhile isdecimal cs in
      case r1 of
        [] \<Rightarrow> None
      | d # r2 \<Rightarrow>
          if d = CHR ''}'' then
            (if lo = [] then None else Some ((digits_value lo, Some (digits_value lo)), r2))
          else if d = CHR '','' then
            (let hi = takeWhile isdecimal r2; r3 = dropWhile isdecimal r2 in
             case r3 of
               [] \<Rightarrow> None
             | e # rest \<Rightarrow>
                 if e = CHR ''}''
                 then Some ((digits_value lo, if hi = [] then None else Some (digits_value hi)), rest)
                 else None)
          else None)"

text \<open>The largest repetition count plus one (\<open>2^32 - 1\<close>): a count that reaches it is
  refused with \<open>OverflowError\<close>.\<close>

definition MAXREPEAT :: int where
  "MAXREPEAT = 4294967295"

text \<open>A quantifier followed by \<open>?\<close> or \<open>+\<close> is lazy or possessive: not covered.\<close>

definition quantifier :: "nat \<Rightarrow> nat option \<Rightarrow> string \<Rightarrow> error + (token \<times> string)" where
  "quantifier lo hi rest =
     (case rest of
        [] \<Rightarrow> Inr (TQuant lo hi, rest)
      | c # _ \<Rightarrow>
          if c = CHR ''?'' \<or> c = CHR ''+'' then Inl Unsupported else Inr (TQuant lo hi, rest))"

text \<open>A character set after its opening bracket: an optional \<open>^\<close>, then the
  members; a \<open>]\<close> that comes first is a member.\<close>

definition class_body :: "string \<Rightarrow> error + (catom list \<times> string)" where
  "class_body body =
     (case body of
        [] \<Rightarrow> Inl ReError
      | b # bs \<Rightarrow>
          if b = CHR '']'' then
            (case class_atoms bs of
               Inl err \<Rightarrow> Inl err
             | Inr (as, rest) \<Rightarrow> Inr (AItem (CChar b) # as, rest))
          else class_atoms body)"

definition char_class :: "string \<Rightarrow> error + (token \<times> string)" where
  "char_class cs =
     (let neg = (cs \<noteq> [] \<and> hd cs = CHR ''^'') in
      case class_body (if neg then tl cs else cs) of
        Inl err \<Rightarrow> Inl err
      | Inr (as, rest) \<Rightarrow>
          (case class_items as of
             Inl err \<Rightarrow> Inl err
           | Inr its \<Rightarrow> Inr (TAtom (CharSet neg its), rest)))"

definition next_token :: "char \<Rightarrow> string \<Rightarrow> error + (token \<times> string)" where
  "next_token c cs =
     (if c = BSL then
        (case cs of
           [] \<Rightarrow> Inl ReError
         | e # rest \<Rightarrow>
             (case escape_atom e of Inl err \<Rightarrow> Inl err | Inr a \<Rightarrow> Inr (TAtom a, rest)))
      else if c = CHR ''['' then char_class cs
      else if c = CHR ''('' then
        (if cs \<noteq> [] \<and> hd cs = CHR ''?'' then Inl Unsupported else Inr (TOpen, cs))
      else if c = CHR '')'' then Inr (TClose, cs)
      else if c = CHR ''|'' then Inr (TBar, cs)
      else if c = CHR ''.'' then Inr (TAtom AnyChar, cs)
      else if c = CHR ''^'' then Inr (TAtom AtBegin, cs)
      else if c = CHR ''$'' then Inr (TAtom AtEnd, cs)
      else if c = CHR ''*'' then quantifier 0 None cs
      else if c = CHR ''+'' then quantifier 1 None cs
      else if c = CHR ''?'' then quantifier 0 (Some 1) cs
      else if c = CHR ''{'' then
        (case scan_brace cs of
           None \<Rightarrow> Inr (TAtom (Lit c), cs)
         | Some ((lo, hi), rest) \<Rightarrow>
             if MAXREPEAT \<le> int lo then Inl OverflowError
             else
               (case hi of
                  None \<Rightarrow> quantifier lo hi rest
                | Some h \<Rightarrow>
                    if MAXREPEAT \<le> int h then Inl OverflowError
                    else if h < lo then Inl ReError
                    else quantifier lo hi rest))
      else Inr (TAtom (Lit c), cs))"

lemma class_atoms_shorter:
  "class_atoms cs = Inr (as, rest) \<Longrightarrow> length rest < length cs"
proof (induction cs arbitrary: as rest rule: class_atoms.induct)
  case 1
  then show ?case by simp
next
  case (2 c cs)
  then show ?case
    by (auto split: if_splits list.splits sum.splits prod.splits) fastforce+
qed

lemma dropWhile_Cons_shorter:
  "dropWhile P xs = y # ys \<Longrightarrow> length ys < length xs"
  using length_dropWhile_le [of P xs] by simp

lemma scan_brace_shorter:
  "scan_brace cs = Some (q, rest) \<Longrightarrow> length rest < length cs"
  unfolding scan_brace_def Let_def
  by (fastforce split: list.splits if_splits dest: dropWhile_Cons_shorter)

lemma quantifier_rest: "quantifier lo hi rest = Inr (t, rest') \<Longrightarrow> rest' = rest"
  by (auto simp: quantifier_def split: list.splits if_splits)

lemma class_body_shorter:
  "class_body cs = Inr (as, rest) \<Longrightarrow> length rest < length cs"
proof (cases cs)
  case Nil
  assume "class_body cs = Inr (as, rest)"
  with Nil show ?thesis by (simp add: class_body_def)
next
  case (Cons b bs)
  assume a: "class_body cs = Inr (as, rest)"
  show ?thesis
  proof (cases "b = CHR '']''")
    case True
    with a Cons obtain as' where "class_atoms bs = Inr (as', rest)"
      by (auto simp: class_body_def split: sum.splits)
    then have "length rest < length bs" by (rule class_atoms_shorter)
    with Cons show ?thesis by simp
  next
    case False
    with a Cons have "class_atoms cs = Inr (as, rest)"
      by (simp add: class_body_def)
    then show ?thesis by (rule class_atoms_shorter)
  qed
qed

lemma char_class_shorter:
  assumes "char_class cs = Inr (t, rest)"
  shows "length rest \<le> length cs"
proof -
  let ?body = "if cs \<noteq> [] \<and> hd cs = CHR ''^'' then tl cs else cs"
  from assms obtain as where "class_body ?body = Inr (as, rest)"
    unfolding char_class_def Let_def by (simp split: sum.split_asm prod.split_asm)
  then have "length rest < length ?body" by (rule class_body_shorter)
  moreover have "length ?body \<le> length cs" by simp
  ultimately show ?thesis by simp
qed

lemma next_token_shorter:
  assumes "next_token c cs = Inr (t, rest)"
  shows "length rest \<le> length cs"
proof -
  have q: "\<And>lo hi r. quantifier lo hi r = Inr (t, rest) \<Longrightarrow> length r \<le> length cs
      \<Longrightarrow> length rest \<le> length cs"
    by (auto dest: quantifier_rest)
  have b: "\<And>lo hi r. scan_brace cs = Some ((lo, hi), r) \<Longrightarrow> length r \<le> length cs"
    by (auto dest: scan_brace_shorter)
  from assms show ?thesis
    unfolding next_token_def
    by (simp split: if_split_asm list.split_asm sum.split_asm option.split_asm prod.split_asm)
       (auto dest: char_class_shorter q b)
qed

text \<open>From tokens to a syntax tree. A frame is an open group: its number, its finished
  alternatives and the items of the alternative being read, both latest first.\<close>

fun mk_seq :: "regex list \<Rightarrow> regex" where
  "mk_seq [] = Eps"
| "mk_seq [r] = r"
| "mk_seq (r # rs) = Seq r (mk_seq rs)"

fun mk_alt :: "regex list \<Rightarrow> regex" where
  "mk_alt [] = Eps"
| "mk_alt [r] = r"
| "mk_alt (r # rs) = Alt r (mk_alt rs)"

definition close_frame :: "regex list \<Rightarrow> regex list \<Rightarrow> regex" where
  "close_frame alts cur = mk_alt (rev (mk_seq (rev cur) # alts))"

text \<open>What a quantifier cannot follow: nothing, a position assertion ("nothing to
  repeat") or another quantifier ("multiple repeat").\<close>

fun repeatable :: "regex \<Rightarrow> bool" where
  "repeatable AtBegin = False"
| "repeatable AtEnd = False"
| "repeatable WordBoundary = False"
| "repeatable NotWordBoundary = False"
| "repeatable (Repeat lo hi r) = False"
| "repeatable r = True"

type_synonym frame = "nat \<times> regex list \<times> regex list"

text \<open>One token against the parser's state: the open frame, the enclosing frames and
  the number of the next group.\<close>

fun parse_step ::
  "token \<Rightarrow> frame \<Rightarrow> frame list \<Rightarrow> nat \<Rightarrow> error + (frame \<times> frame list \<times> nat)" where
  "parse_step (TAtom r) (g, alts, cur) stack n = Inr ((g, alts, r # cur), stack, n)"
| "parse_step TBar (g, alts, cur) stack n = Inr ((g, mk_seq (rev cur) # alts, []), stack, n)"
| "parse_step TOpen fr stack n =
     (if 100 \<le> length stack then Inl Unsupported else Inr ((n, [], []), fr # stack, n + 1))"
| "parse_step TClose (g, alts, cur) stack n =
     (case stack of
        [] \<Rightarrow> Inl ReError
      | (g', alts', cur') # stack' \<Rightarrow>
          Inr ((g', alts', Group g (close_frame alts cur) # cur'), stack', n))"
| "parse_step (TQuant lo hi) (g, alts, cur) stack n =
     (case cur of
        [] \<Rightarrow> Inl ReError
      | r # cur' \<Rightarrow>
          if repeatable r then Inr ((g, alts, Repeat lo hi r # cur'), stack, n)
          else Inl ReError)"

text \<open>The parser reads the pattern token by token from the left; at the end of the
  pattern no group may be open.\<close>

function parse_from :: "string \<Rightarrow> frame \<Rightarrow> frame list \<Rightarrow> nat \<Rightarrow> error + regex" where
  "parse_from [] fr stack n =
     (if stack = [] then Inr (close_frame (fst (snd fr)) (snd (snd fr))) else Inl ReError)"
| "parse_from (c # cs) fr stack n =
     (case next_token c cs of
        Inl err \<Rightarrow> Inl err
      | Inr (t, rest) \<Rightarrow>
          (case parse_step t fr stack n of
             Inl err \<Rightarrow> Inl err
           | Inr (fr', stack', n') \<Rightarrow> parse_from rest fr' stack' n'))"
  by pat_completeness auto
termination
proof (relation "measure (\<lambda>(p, fr, stack, n). length p)")
  show "wf (measure (\<lambda>(p, fr, stack, n). length p))" by simp
next
  fix c cs fr stack n x t rest y fr' z stack' n'
  assume "next_token c cs = Inr x" and "(t, rest) = x"
  then have "length rest \<le> length cs"
    using next_token_shorter [of c cs t rest] by simp
  then show "((rest, fr', stack', n'), c # cs, fr, stack, n)
      \<in> measure (\<lambda>(p, fr, stack, n). length p)"
    by simp
qed

definition re_compile :: "string \<Rightarrow> error + regex" where
  "re_compile p = parse_from p (0, [], []) [] 1"

subsection \<open>Matching\<close>

text \<open>
  A matcher state is the character before the current position (\<open>None\<close> at the start
  of the string), the rest of the string, and the text of the groups matched so far.
  \<open>rmatch r st\<close> lists the states in which a match of \<open>r\<close> that begins at \<open>st\<close> can
  end, in the order a backtracking matcher tries them. No flags are set: \<open>.\<close> excludes
  the line feed, \<open>^\<close> holds at the start of the string only, \<open>$\<close> at its end or
  before a line feed that ends it. On the empty string neither \<open>\b\<close> nor \<open>\B\<close>
  holds.
\<close>

type_synonym mstate = "char option \<times> string \<times> (nat \<times> string) list"

fun in_item :: "citem \<Rightarrow> char \<Rightarrow> bool" where
  "in_item (CChar a) c = (c = a)"
| "in_item (CRange lo hi) c = (code lo \<le> code c \<and> code c \<le> code hi)"
| "in_item CDigit c = isdecimal c"
| "in_item CSpace c = isspace c"
| "in_item CWord c = isword c"
| "in_item CNotDigit c = (\<not> isdecimal c)"
| "in_item CNotSpace c = (\<not> isspace c)"
| "in_item CNotWord c = (\<not> isword c)"

definition in_set :: "bool \<Rightarrow> citem list \<Rightarrow> char \<Rightarrow> bool" where
  "in_set neg its c = (list_ex (\<lambda>it. in_item it c) its \<noteq> neg)"

definition one_char :: "(char \<Rightarrow> bool) \<Rightarrow> mstate \<Rightarrow> mstate list" where
  "one_char P st =
     (case st of (prev, s, caps) \<Rightarrow>
        (case s of [] \<Rightarrow> [] | c # cs \<Rightarrow> if P c then [(Some c, cs, caps)] else []))"

definition at_boundary :: "mstate \<Rightarrow> bool" where
  "at_boundary st =
     (case st of (prev, s, caps) \<Rightarrow>
        ((case prev of None \<Rightarrow> False | Some c \<Rightarrow> isword c)
           \<noteq> (case s of [] \<Rightarrow> False | c # cs \<Rightarrow> isword c)))"

definition remaining :: "mstate \<Rightarrow> nat" where
  "remaining st = length (fst (snd st))"

text \<open>Greedy repetition of a matcher \<open>f\<close>: at least \<open>lo\<close> times, at most \<open>hi\<close> times
  when \<open>hi\<close> is given. One more round is tried before stopping; an optional round that
  consumes nothing is cut off. Every round lowers \<open>lo\<close> or the remaining length, so
  \<open>lo + remaining st\<close> rounds of fuel are never used up: more fuel gives the same
  result (\<open>rep_fuel\<close> below).\<close>

fun rep :: "nat \<Rightarrow> nat \<Rightarrow> nat option \<Rightarrow> (mstate \<Rightarrow> mstate list) \<Rightarrow> mstate \<Rightarrow> mstate list" where
  "rep 0 lo hi f st = (if lo = 0 then [st] else [])"
| "rep (Suc fuel) lo hi f st =
     (if hi = Some 0 then (if lo = 0 then [st] else [])
      else if 0 < lo then
        concat (map (rep fuel (lo - 1) (map_option (\<lambda>h. h - 1) hi) f) (f st))
      else
        concat (map (\<lambda>st'. if remaining st' < remaining st
                            then rep fuel 0 (map_option (\<lambda>h. h - 1) hi) f st' else [])
                  (f st)) @ [st])"

definition set_group :: "nat \<Rightarrow> mstate \<Rightarrow> mstate \<Rightarrow> mstate" where
  "set_group g st st' =
     (case st' of (prev', s', caps') \<Rightarrow>
        (prev', s', (g, take (remaining st - length s') (fst (snd st))) # caps'))"

primrec rmatch :: "regex \<Rightarrow> mstate \<Rightarrow> mstate list" where
  "rmatch (Lit a) st = one_char (\<lambda>c. c = a) st"
| "rmatch AnyChar st = one_char (\<lambda>c. c \<noteq> NL) st"
| "rmatch (CharSet neg its) st = one_char (in_set neg its) st"
| "rmatch AtBegin st = (if fst st = None then [st] else [])"
| "rmatch AtEnd st = (if fst (snd st) = [] \<or> fst (snd st) = [NL] then [st] else [])"
| "rmatch WordBoundary st = (if at_boundary st then [st] else [])"
| "rmatch NotWordBoundary st =
     (if at_boundary st \<or> (fst st = None \<and> fst (snd st) = []) then [] else [st])"
| "rmatch Eps st = [st]"
| "rmatch (Seq a b) st = concat (map (rmatch b) (rmatch a st))"
| "rmatch (Alt a b) st = rmatch a st @ rmatch b st"
| "rmatch (Repeat lo hi r) st = rep (lo + remaining st) lo hi (rmatch r) st"
| "rmatch (Group g r) st = map (set_group g st) (rmatch r st)"

text \<open>\<open>re.match(p, s)\<close> as a truth value: the pattern matches a prefix of \<open>s\<close>.\<close>

definition re_match :: "string \<Rightarrow> string \<Rightarrow> error + bool" where
  "re_match p s =
     (case re_compile p of Inl err \<Rightarrow> Inl err | Inr r \<Rightarrow> Inr (rmatch r (None, s, []) \<noteq> []))"

text \<open>\<open>re.search(p, s)\<close> as a truth value: the pattern matches at some position.\<close>

fun search_from :: "regex \<Rightarrow> char option \<Rightarrow> string \<Rightarrow> bool" where
  "search_from r prev [] = (rmatch r (prev, [], []) \<noteq> [])"
| "search_from r prev (c # cs) =
     (rmatch r (prev, c # cs, []) \<noteq> [] \<or> search_from r (Some c) cs)"

definition re_search :: "string \<Rightarrow> string \<Rightarrow> error + bool" where
  "re_search p s =
     (case re_compile p of Inl err \<Rightarrow> Inl err | Inr r \<Rightarrow> Inr (search_from r None s))"

subsection \<open>Substitution\<close>

text \<open>The replacement template of \<open>re.sub\<close>: \<open>\\\<close> stands for one backslash, a backslash
  and a digit for the text of a group, a backslash and another ASCII letter is an error
  unless it names a control character, and a backslash before any other character
  stays as it is. The template is parsed before the string is searched.\<close>

datatype titem = RLit char | RGroup nat

fun parse_template :: "nat \<Rightarrow> string \<Rightarrow> error + titem list" where
  "parse_template n [] = Inr []"
| "parse_template n [c] = (if c = BSL then Inl ReError else Inr [RLit c])"
| "parse_template n (c # e # rest) =
     (if c \<noteq> BSL then
        (case parse_template n (e # rest) of Inl err \<Rightarrow> Inl err | Inr ts \<Rightarrow> Inr (RLit c # ts))
      else if e = CHR ''g'' \<or> e = CHR ''0'' then Inl Unsupported
      else if isdecimal e then
        (if rest \<noteq> [] \<and> isdecimal (hd rest) then Inl Unsupported
         else if n < code e - 48 then Inl ReError
         else (case parse_template n rest of
                 Inl err \<Rightarrow> Inl err
               | Inr ts \<Rightarrow> Inr (RGroup (code e - 48) # ts)))
      else if isascii_letter e \<and> control_escape e = None \<and> e \<noteq> CHR ''b'' then Inl ReError
      else
        (case parse_template n rest of
           Inl err \<Rightarrow> Inl err
         | Inr ts \<Rightarrow>
             Inr ((if e = BSL then [RLit BSL]
                   else if e = CHR ''b'' then [RLit (CHR 0x08)]
                   else (case control_escape e of
                           Some k \<Rightarrow> [RLit k]
                         | None \<Rightarrow> [RLit BSL, RLit e])) @ ts)))"

fun expand_template :: "titem list \<Rightarrow> (nat \<times> string) list \<Rightarrow> string" where
  "expand_template [] caps = []"
| "expand_template (RLit c # ts) caps = c # expand_template ts caps"
| "expand_template (RGroup g # ts) caps =
     (case map_of caps g of None \<Rightarrow> [] | Some t \<Rightarrow> t) @ expand_template ts caps"

primrec ngroups :: "regex \<Rightarrow> nat" where
  "ngroups (Lit a) = 0"
| "ngroups AnyChar = 0"
| "ngroups (CharSet neg its) = 0"
| "ngroups AtBegin = 0"
| "ngroups AtEnd = 0"
| "ngroups WordBoundary = 0"
| "ngroups NotWordBoundary = 0"
| "ngroups Eps = 0"
| "ngroups (Seq a b) = ngroups a + ngroups b"
| "ngroups (Alt a b) = ngroups a + ngroups b"
| "ngroups (Repeat lo hi r) = ngroups r"
| "ngroups (Group g r) = 1 + ngroups r"

text \<open>The match \<open>re.sub\<close> takes at a position: the first in priority order; right after
  an empty match at the same position, the first that is not empty.\<close>

definition first_match :: "regex \<Rightarrow> bool \<Rightarrow> mstate \<Rightarrow> mstate option" where
  "first_match r advance st =
     (case filter (\<lambda>st'. \<not> advance \<or> remaining st' < remaining st) (rmatch r st) of
        [] \<Rightarrow> None
      | m # ms \<Rightarrow> Some m)"

function sub_from :: "regex \<Rightarrow> titem list \<Rightarrow> bool \<Rightarrow> char option \<Rightarrow> string \<Rightarrow> string" where
  "sub_from r tpl advance prev s =
     (case first_match r advance (prev, s, []) of
        Some (prev', rest, caps) \<Rightarrow>
          if length rest < length s
          then expand_template tpl caps @ sub_from r tpl False prev' rest
          else if advance then []
          else expand_template tpl caps @ sub_from r tpl True prev s
      | None \<Rightarrow>
          (case s of [] \<Rightarrow> [] | c # cs \<Rightarrow> c # sub_from r tpl False (Some c) cs))"
  by pat_completeness auto
termination
  by (relation "measure (\<lambda>(r, tpl, advance, prev, s). 2 * length s + (if advance then 0 else 1))")
     auto

declare sub_from.simps [simp del]

text \<open>\<open>re.sub(p, repl, s)\<close>.\<close>

definition re_sub :: "string \<Rightarrow> string \<Rightarrow> string \<Rightarrow> error + string" where
  "re_sub p repl s =
     (case re_compile p of
        Inl err \<Rightarrow> Inl err
      | Inr r \<Rightarrow>
          (case parse_template (ngroups r) repl of
             Inl err \<Rightarrow> Inl err
           | Inr tpl \<Rightarrow> Inr (sub_from r tpl False None s)))"

section \<open>The data model (\<open>models.py\<close>)\<close>

datatype DocumentType = ACADEMIC_PAPER | LANGUAGE_TEXTBOOK | GENERIC | CUSTOM

text \<open>The counters are Python integers; the two \<open>float\<close> fields and the score are
  modelled as real numbers (rounding is not modelled).\<close>

record QualityMetrics =
  paragraphs_merged :: int
  headers_removed :: int
  formatting_fixes :: int
  lines_processed :: int
  tables_detected :: int
  figures_detected :: int
  references_detected :: int
  processing_time_seconds :: real
  pages_processed :: int
  word_count :: int

definition new_metrics :: QualityMetrics where
  "new_metrics = \<lparr>paragraphs_merged = 0, headers_removed = 0, formatting_fixes = 0,
     lines_processed = 0, tables_detected = 0, figures_detected = 0,
     references_detected = 0, processing_time_seconds = 0, pages_processed = 0,
     word_count = 0\<rparr>"


record ProcessingProfile =
  name :: string
  document_type :: DocumentType
  description :: string
  model_name :: string
  batch_size :: int
  image_scale :: real
  system_prompt :: string
  special_instructions :: "string list"
  enable_paragraph_merging :: bool
  enable_header_removal :: bool
  enable_table_detection :: bool
  enable_figure_detection :: bool
  enable_reference_formatting :: bool
  min_quality_score :: real
  max_retries :: int
  header_patterns :: "string list"
  section_patterns :: "string list"
  special_formatting :: "(string \<times> string) list"

text \<open>Constructing a profile from its three required fields; every other field takes
  the default the class declares. The class has no validator: the pattern lists are
  stored as the strings they are, compiled only when a stage matches with them.\<close>

definition new_profile :: "string \<Rightarrow> DocumentType \<Rightarrow> string \<Rightarrow> ProcessingProfile" where
  "new_profile n dt prompt =
     \<lparr>name = n, document_type = dt, description = [],
      model_name = ''gemini-2.5-flash'', batch_size = 5, image_scale = 2,
      system_prompt = prompt, special_instructions = [],
      enable_paragraph_merging = True, enable_header_removal = True,
      enable_table_detection = True, enable_figure_detection = True,
      enable_reference_formatting = True,
      min_quality_score = 75, max_retries = 2,
      header_patterns = [], section_patterns = [], special_formatting = []\<rparr>"

section \<open>The post-processor (\<open>utils/post_processor.py\<close>)\<close>

subsection \<open>\<open>_remove_headers\<close>\<close>

text \<open>The inner loop over the patterns: the first pattern that matches the trimmed line
  sets \<open>is_header\<close>, counts one header and breaks.\<close>

fun scan_patterns :: "string list \<Rightarrow> string \<Rightarrow> int \<Rightarrow> error + (bool \<times> int)" where
  "scan_patterns [] s removed = Inr (False, removed)"
| "scan_patterns (p # ps) s removed =
     (case re_match p s of
        Inl err \<Rightarrow> Inl err
      | Inr hit \<Rightarrow> if hit then Inr (True, removed + 1) else scan_patterns ps s removed)"

fun remove_headers_loop ::
  "string list \<Rightarrow> string list \<Rightarrow> string list \<Rightarrow> int \<Rightarrow> error + (string list \<times> int)" where
  "remove_headers_loop patterns [] cleaned_lines removed = Inr (cleaned_lines, removed)"
| "remove_headers_loop patterns (line # rest) cleaned_lines removed =
     (case scan_patterns patterns (strip line) removed of
        Inl err \<Rightarrow> Inl err
      | Inr (is_header, removed') \<Rightarrow>
          remove_headers_loop patterns rest
            (if \<not> is_header then cleaned_lines @ [line] else cleaned_lines) removed')"

definition remove_headers :: "string list \<Rightarrow> string list \<Rightarrow> error + (string list \<times> int)" where
  "remove_headers lines patterns = remove_headers_loop patterns lines [] 0"

subsection \<open>\<open>_is_special_line\<close> and the merge predicates\<close>

text \<open>The sixteen built-in patterns, as the raw string literals of the source spell
  them: \<open>^#+\\s\<close>, \<open>^\\*\\*[A-Z]\<close>, \<open>^---+$\<close>, \<open>^\\|\<close>, \<open>^\\d+\\.\\s\<close>, \<open>^-\\s\<close>,
  \<open>^\\*\\s\<close>, \<open>^[A-Z][A-Z\\s]+:\<close>, \<open>^Exercise\\s+\\d+\<close>, \<open>^\\*\\*Exercise\\s+\\d+\<close>,
  \<open>^Example:\<close>, \<open>^\\*\\*.*\\*\\*$\<close>, \<open>^Figure\\s+\\d+\<close>, \<open>^Table\\s+\\d+\<close>,
  \<open>^Abstract\\s*$\<close>, \<open>^References\\s*$\<close>.\<close>

definition special_patterns :: "string list" where
  "special_patterns =
     [''^#+'' @ [BSL, BSL] @ ''s'',
      ''^'' @ [BSL, BSL] @ ''*'' @ [BSL, BSL] @ ''*[A-Z]'',
      ''^---+$'',
      ''^'' @ [BSL, BSL] @ ''|'',
      ''^'' @ [BSL, BSL] @ ''d+'' @ [BSL, BSL] @ ''.'' @ [BSL, BSL] @ ''s'',
      ''^-'' @ [BSL, BSL] @ ''s'',
      ''^'' @ [BSL, BSL] @ ''*'' @ [BSL, BSL] @ ''s'',
      ''^[A-Z][A-Z'' @ [BSL, BSL] @ ''s]+:'',
      ''^Exercise'' @ [BSL, BSL] @ ''s+'' @ [BSL, BSL] @ ''d+'',
      ''^'' @ [BSL, BSL] @ ''*'' @ [BSL, BSL] @ ''*Exercise'' @ [BSL, BSL] @ ''s+''
         @ [BSL, BSL] @ ''d+'',
      ''^Example:'',
      ''^'' @ [BSL, BSL] @ ''*'' @ [BSL, BSL] @ ''*.*'' @ [BSL, BSL] @ ''*'' @ [BSL, BSL]
         @ ''*$'',
      ''^Figure'' @ [BSL, BSL] @ ''s+'' @ [BSL, BSL] @ ''d+'',
      ''^Table'' @ [BSL, BSL] @ ''s+'' @ [BSL, BSL] @ ''d+'',
      ''^Abstract'' @ [BSL, BSL] @ ''s*$'',
      ''^References'' @ [BSL, BSL] @ ''s*$'']"

text \<open>Does any pattern of the list match, tried in order up to the first match (the
  \<open>for\<close> loop that returns, and \<open>any\<close> over a generator).\<close>

fun any_match :: "string list \<Rightarrow> string \<Rightarrow> error + bool" where
  "any_match [] s = Inr False"
| "any_match (p # ps) s =
     (case re_match p s of
        Inl err \<Rightarrow> Inl err
      | Inr hit \<Rightarrow> if hit then Inr True else any_match ps s)"

definition is_special_line :: "string \<Rightarrow> ProcessingProfile \<Rightarrow> error + bool" where
  "is_special_line line profile =
     (case any_match (section_patterns profile) (strip line) of
        Inl err \<Rightarrow> Inl err
      | Inr hit \<Rightarrow> if hit then Inr True else any_match special_patterns (strip line))"

text \<open>\<open>_ends_sentence\<close>: the pattern is \<open>[.!?]\\s*$\<close>.\<close>

definition ends_sentence :: "string \<Rightarrow> error + bool" where
  "ends_sentence line0 =
     (let line = rstrip line0 in
      case re_search (''[.!?]'' @ [BSL, BSL] @ ''s*$'') line of
        Inl err \<Rightarrow> Inl err
      | Inr hit \<Rightarrow> if hit then Inr True else Inr (endswith line '':''))"

definition looks_like_new_section :: "string \<Rightarrow> error + bool" where
  "looks_like_new_section line =
     re_match
       ''^(Abstract|Introduction|Methods|Results|Discussion|Conclusion|References|Figure|Table|Exercise)''
       line"

text \<open>\<open>_should_merge_with_previous\<close>; the lowercase test is \<open>^[a-z\<close>U+00E0\<open>-\<close>U+00FF\<open>]\<close>.\<close>

definition should_merge_with_previous :: "string \<Rightarrow> string \<Rightarrow> error + bool" where
  "should_merge_with_previous prev_line current_line =
     (case ends_sentence prev_line of
        Inl err \<Rightarrow> Inl err
      | Inr ended \<Rightarrow>
          if ended then Inr False
          else
            (case re_match ''^[A-Z]'' current_line of
               Inl err \<Rightarrow> Inl err
             | Inr upper \<Rightarrow>
                 if upper \<and> endswith (rstrip prev_line) ''.'' then Inr False
                 else if endswith (rstrip prev_line) ''-'' then Inr True
                 else
                   (case re_match (''^[a-z'' @ [CHR 0xE0] @ ''-'' @ [CHR 0xFF] @ '']'') current_line of
                      Inl err \<Rightarrow> Inl err
                    | Inr lower \<Rightarrow>
                        if lower then Inr True
                        else
                          (case re_search ''[.!?:;]$'' (rstrip prev_line) of
                             Inl err \<Rightarrow> Inl err
                           | Inr punct \<Rightarrow>
                               if punct then Inr False
                               else
                                 (case looks_like_new_section current_line of
                                    Inl err \<Rightarrow> Inl err
                                  | Inr sect \<Rightarrow> Inr (\<not> sect))))))"

text \<open>\<open>_fix_split_formatting\<close>: the spliced line, or the empty string when no split
  marker is found.\<close>

definition fix_split_formatting :: "string \<Rightarrow> string \<Rightarrow> string" where
  "fix_split_formatting prev_line current_line =
     (if endswith (rstrip prev_line) ''**'' \<and> startswith current_line ''**'' then
        take (length (rstrip prev_line) - 2) (rstrip prev_line) @ drop 2 current_line
      else if endswith (rstrip prev_line) ''*'' \<and> startswith current_line ''*''
              \<and> \<not> endswith (rstrip prev_line) '' *'' then
        take (length (rstrip prev_line) - 1) (rstrip prev_line) @ drop 1 current_line
      else [])"

subsection \<open>\<open>_merge_paragraphs\<close>\<close>

text \<open>\<open>if current_paragraph: merged_lines.append(" ".join(current_paragraph))\<close>\<close>

definition flush :: "string list \<Rightarrow> string list \<Rightarrow> string list" where
  "flush merged_lines current_paragraph =
     (if current_paragraph \<noteq> [] then merged_lines @ [str_join '' '' current_paragraph]
      else merged_lines)"

text \<open>The loop over the lines; its state is \<open>merged_lines\<close>, \<open>current_paragraph\<close> and
  \<open>paragraphs_merged\<close>.\<close>

fun merge_loop ::
  "ProcessingProfile \<Rightarrow> string list \<Rightarrow> string list \<times> string list \<times> int
     \<Rightarrow> error + (string list \<times> string list \<times> int)" where
  "merge_loop profile [] st = Inr st"
| "merge_loop profile (l # ls) (merged_lines, cur, merged) =
     (if rstrip l = [] then
        merge_loop profile ls (flush merged_lines cur @ [[]], [], merged)
      else
        (case is_special_line (rstrip l) profile of
           Inl err \<Rightarrow> Inl err
         | Inr special \<Rightarrow>
             if special then
               merge_loop profile ls (flush merged_lines cur @ [rstrip l], [], merged)
             else
               (case (if cur \<noteq> [] then should_merge_with_previous (last cur) (rstrip l)
                      else Inr False) of
                  Inl err \<Rightarrow> Inl err
                | Inr continues \<Rightarrow>
                    if continues then
                      (if fix_split_formatting (last cur) (rstrip l) \<noteq> [] then
                         merge_loop profile ls
                           (merged_lines,
                            butlast cur @ [fix_split_formatting (last cur) (rstrip l)],
                            merged + 1)
                       else merge_loop profile ls (merged_lines, cur @ [rstrip l], merged + 1))
                    else
                      (case (if cur \<noteq> [] then ends_sentence (last cur) else Inr False) of
                         Inl err \<Rightarrow> Inl err
                       | Inr ended \<Rightarrow>
                           if ended then
                             merge_loop profile ls
                               (merged_lines @ [str_join '' '' cur], [rstrip l], merged)
                           else merge_loop profile ls (merged_lines, cur @ [rstrip l], merged)))))"

definition merge_paragraphs :: "string list \<Rightarrow> ProcessingProfile \<Rightarrow> error + (string list \<times> int)" where
  "merge_paragraphs lines profile =
     (case merge_loop profile lines ([], [], 0) of
        Inl err \<Rightarrow> Inl err
      | Inr (merged_lines, cur, merged) \<Rightarrow> Inr (flush merged_lines cur, merged))"

subsection \<open>The detectors\<close>

definition table_like :: "string \<Rightarrow> bool" where
  "table_like line = (CHR ''|'' \<in> set line \<and> 3 \<le> length (str_split line ''|''))"

fun tables_loop :: "string list \<Rightarrow> int \<Rightarrow> bool \<Rightarrow> int" where
  "tables_loop [] detected in_table = detected"
| "tables_loop (line # rest) detected in_table =
     (if table_like line then
        (if \<not> in_table then tables_loop rest (detected + 1) True
         else tables_loop rest detected in_table)
      else tables_loop rest detected False)"

definition detect_tables :: "string list \<Rightarrow> string list \<times> int" where
  "detect_tables lines = (lines, tables_loop lines 0 False)"

text \<open>\<open>_detect_figures\<close>: the pattern is \<open>^Figure\\s+\\d+\<close>.\<close>

fun figures_loop :: "string list \<Rightarrow> int \<Rightarrow> error + int" where
  "figures_loop [] detected = Inr detected"
| "figures_loop (line # rest) detected =
     (case re_match (''^Figure'' @ [BSL, BSL] @ ''s+'' @ [BSL, BSL] @ ''d+'') (strip line) of
        Inl err \<Rightarrow> Inl err
      | Inr hit \<Rightarrow> figures_loop rest (if hit then detected + 1 else detected))"

definition detect_figures :: "string list \<Rightarrow> error + (string list \<times> int)" where
  "detect_figures lines =
     (case figures_loop lines 0 of Inl err \<Rightarrow> Inl err | Inr n \<Rightarrow> Inr (lines, n))"

text \<open>\<open>_format_references\<close>: the header pattern is \<open>^References\\s*$\<close>; the two entry
  patterns are written with single backslashes, \<open>\d{4}\<close> and \<open>\bet\s+al\.\<close>.\<close>

fun references_loop :: "string list \<Rightarrow> int \<Rightarrow> bool \<Rightarrow> error + int" where
  "references_loop [] detected in_references = Inr detected"
| "references_loop (line # rest) detected in_references =
     (case re_match (''^References'' @ [BSL, BSL] @ ''s*$'') (strip line) of
        Inl err \<Rightarrow> Inl err
      | Inr header \<Rightarrow>
          if header then references_loop rest detected True
          else if in_references \<and> strip line \<noteq> [] then
            (case re_search ([BSL] @ ''d{4}'') line of
               Inl err \<Rightarrow> Inl err
             | Inr year \<Rightarrow>
                 if year then references_loop rest (detected + 1) in_references
                 else
                   (case re_search ([BSL] @ ''bet'' @ [BSL] @ ''s+al'' @ [BSL] @ ''.'') line of
                      Inl err \<Rightarrow> Inl err
                    | Inr etal \<Rightarrow>
                        references_loop rest (if etal then detected + 1 else detected)
                          in_references))
          else references_loop rest detected in_references)"

definition format_references ::
  "string list \<Rightarrow> ProcessingProfile \<Rightarrow> error + (string list \<times> int)" where
  "format_references lines profile =
     (case references_loop lines 0 False of Inl err \<Rightarrow> Inl err | Inr n \<Rightarrow> Inr (lines, n))"

subsection \<open>\<open>_apply_formatting_fixes\<close>\<close>

text \<open>One line of the pass: \<open>re.sub(r"\\s+", " ", line)\<close>, then
  \<open>re.sub(r"([a-z])- ([a-z])", r"\\1\\2", line)\<close>, then \<open>strip\<close>.\<close>

definition fix_line :: "string \<Rightarrow> error + string" where
  "fix_line line =
     (case re_sub ([BSL, BSL] @ ''s+'') '' '' line of
        Inl err \<Rightarrow> Inl err
      | Inr line1 \<Rightarrow>
          (case re_sub ''([a-z])- ([a-z])'' ([BSL, BSL] @ ''1'' @ [BSL, BSL] @ ''2'') line1 of
             Inl err \<Rightarrow> Inl err
           | Inr line2 \<Rightarrow> Inr (strip line2)))"

fun fixes_loop :: "string list \<Rightarrow> string list \<Rightarrow> int \<Rightarrow> error + (string list \<times> int)" where
  "fixes_loop [] cleaned_lines fixes = Inr (cleaned_lines, fixes)"
| "fixes_loop (original # rest) cleaned_lines fixes =
     (case fix_line original of
        Inl err \<Rightarrow> Inl err
      | Inr line \<Rightarrow>
          fixes_loop rest (cleaned_lines @ [line]) (if line \<noteq> original then fixes + 1 else fixes))"

definition apply_formatting_fixes ::
  "string list \<Rightarrow> ProcessingProfile \<Rightarrow> error + (string list \<times> int)" where
  "apply_formatting_fixes lines profile = fixes_loop lines [] 0"

subsection \<open>\<open>process_text\<close>\<close>

text \<open>The text is split on the two characters backslash, \<open>n\<close> (the literal \<open>"\\n"\<close>),
  each enabled stage maps the lines and stores its count in the metrics, and the lines
  are joined with the same two characters. A stage is one \<open>if profile.enable_...\<close>
  block of the source, on the pair of the lines and the metrics.\<close>

type_synonym pstate = "string list \<times> QualityMetrics"

definition header_stage :: "ProcessingProfile \<Rightarrow> pstate \<Rightarrow> error + pstate" where
  "header_stage profile st =
     (case st of (lines, metrics) \<Rightarrow>
        if enable_header_removal profile then
          (case remove_headers lines (header_patterns profile) of
             Inl err \<Rightarrow> Inl err
           | Inr (lines', n) \<Rightarrow> Inr (lines', metrics\<lparr>headers_removed := n\<rparr>))
        else Inr (lines, metrics))"

definition merging_stage :: "ProcessingProfile \<Rightarrow> pstate \<Rightarrow> error + pstate" where
  "merging_stage profile st =
     (case st of (lines, metrics) \<Rightarrow>
        if enable_paragraph_merging profile then
          (case merge_paragraphs lines profile of
             Inl err \<Rightarrow> Inl err
           | Inr (lines', n) \<Rightarrow> Inr (lines', metrics\<lparr>paragraphs_merged := n\<rparr>))
        else Inr (lines, metrics))"

definition table_stage :: "ProcessingProfile \<Rightarrow> pstate \<Rightarrow> pstate" where
  "table_stage profile st =
     (case st of (lines, metrics) \<Rightarrow>
        if enable_table_detection profile then
          (case detect_tables lines of (lines', n) \<Rightarrow> (lines', metrics\<lparr>tables_detected := n\<rparr>))
        else (lines, metrics))"

definition figure_stage :: "ProcessingProfile \<Rightarrow> pstate \<Rightarrow> error + pstate" where
  "figure_stage profile st =
     (case st of (lines, metrics) \<Rightarrow>
        if enable_figure_detection profile then
          (case detect_figures lines of
             Inl err \<Rightarrow> Inl err
           | Inr (lines', n) \<Rightarrow> Inr (lines', metrics\<lparr>figures_detected := n\<rparr>))
        else Inr (lines, metrics))"

definition reference_stage :: "ProcessingProfile \<Rightarrow> pstate \<Rightarrow> error + pstate" where
  "reference_stage profile st =
     (case st of (lines, metrics) \<Rightarrow>
        if enable_reference_formatting profile then
          (case format_references lines profile of
             Inl err \<Rightarrow> Inl err
           | Inr (lines', n) \<Rightarrow> Inr (lines', metrics\<lparr>references_detected := n\<rparr>))
        else Inr (lines, metrics))"

text \<open>The last steps: the formatting fixes, the join and the word count.\<close>

definition finish_stage :: "ProcessingProfile \<Rightarrow> pstate \<Rightarrow> error + (string \<times> QualityMetrics)" where
  "finish_stage profile st =
     (case st of (lines, metrics) \<Rightarrow>
        (case apply_formatting_fixes lines profile of
           Inl err \<Rightarrow> Inl err
         | Inr (lines', fixes) \<Rightarrow>
             (let final_text = str_join [BSL, CHR ''n''] lines' in
              Inr (final_text,
                   metrics\<lparr>formatting_fixes := fixes,
                     word_count := int (length (split_ws final_text))\<rparr>))))"

definition process_text :: "string \<Rightarrow> ProcessingProfile \<Rightarrow> error + (string \<times> QualityMetrics)" where
  "process_text text profile =
     (let lines = str_split text [BSL, CHR ''n''];
          metrics = new_metrics\<lparr>lines_processed := int (length lines)\<rparr>
      in
      case header_stage profile (lines, metrics) of
        Inl err \<Rightarrow> Inl err
      | Inr st1 \<Rightarrow>
          (case merging_stage profile st1 of
             Inl err \<Rightarrow> Inl err
           | Inr st2 \<Rightarrow>
               (case figure_stage profile (table_stage profile st2) of
                  Inl err \<Rightarrow> Inl err
                | Inr st4 \<Rightarrow>
                    (case reference_stage profile st4 of
                       Inl err \<Rightarrow> Inl err
                     | Inr st5 \<Rightarrow> finish_stage profile st5))))"

section \<open>Notions of the specification\<close>

text \<open>A pattern string that \<open>re\<close> compiles.\<close>

definition compiles :: "string \<Rightarrow> bool" where
  "compiles p = (case re_compile p of Inl err \<Rightarrow> False | Inr r \<Rightarrow> True)"

text \<open>A header line: its trimmed content is matched, from its start, by some pattern.\<close>

definition is_header :: "string list \<Rightarrow> string \<Rightarrow> bool" where
  "is_header patterns line = (\<exists>p \<in> set patterns. re_match p (strip line) = Inr True)"

definition page_number_pattern :: string where
  "page_number_pattern = ''^'' @ [BSL] @ ''d+'' @ [BSL] @ ''s*$''"


text \<open>The positions where a maximal run of consecutive elements satisfying \<open>P\<close> begins.\<close>

definition run_starts :: "('a \<Rightarrow> bool) \<Rightarrow> 'a list \<Rightarrow> nat list" where
  "run_starts P xs = filter (\<lambda>i. P (xs ! i) \<and> (i = 0 \<or> \<not> P (xs ! (i - 1)))) [0..<length xs]"

text \<open>The same, for a list that follows an element on which \<open>P\<close> was \<open>b\<close>.\<close>

definition starts_after :: "('a \<Rightarrow> bool) \<Rightarrow> bool \<Rightarrow> 'a list \<Rightarrow> nat list" where
  "starts_after P b xs =
     filter (\<lambda>i. P (xs ! i) \<and> (if i = 0 then \<not> b else \<not> P (xs ! (i - 1)))) [0..<length xs]"


text \<open>
  Profiles and inputs of the examples. The page-number pattern is \<open>^\d+\s*$\<close>, written
  with single backslashes as in the profile modules; \<open>scenario_text\<close> is the text of the
  end-to-end scenario with line feeds between its lines, \<open>scenario_text_escaped\<close> the same
  text with the two characters backslash, \<open>n\<close> in their place.
\<close>

definition plain_profile :: ProcessingProfile where
  "plain_profile = new_profile ''generic'' GENERIC ''Transcribe the page.''"

definition page_number_profile :: ProcessingProfile where
  "page_number_profile = plain_profile\<lparr>header_patterns := [page_number_pattern]\<rparr>"


definition textbook_profile :: ProcessingProfile where
  "textbook_profile =
     (new_profile ''textbook'' LANGUAGE_TEXTBOOK ''Transcribe the page.'')
       \<lparr>section_patterns := [''^(Unit|Lesson|Chapter)'' @ [BSL] @ ''s+'' @ [BSL] @ ''d+'']\<rparr>"

definition scenario_text :: string where
  "scenario_text = ''1'' @ [NL, NL] @ ''The cat'' @ [NL] @ ''sat on'' @ [NL] @ ''the mat.''
     @ [NL, NL] @ ''References'' @ [NL] @ ''Smith, 2020.''"

definition scenario_text_escaped :: string where
  "scenario_text_escaped = ''1'' @ [BSL, CHR ''n'', BSL, CHR ''n''] @ ''The cat''
     @ [BSL, CHR ''n''] @ ''sat on'' @ [BSL, CHR ''n''] @ ''the mat.''
     @ [BSL, CHR ''n'', BSL, CHR ''n''] @ ''References'' @ [BSL, CHR ''n''] @ ''Smith, 2020.''"

section \<open>The matcher's fuel\<close>

text \<open>A match never lengthens the rest of the string, and the repetition gives the same
  states with any fuel of at least \<open>lo + remaining st\<close>.\<close>

lemma one_char_remaining:
  "st' \<in> set (one_char P st) \<Longrightarrow> remaining st' \<le> remaining st"
  by (auto simp: one_char_def remaining_def split: prod.splits list.splits if_splits)

lemma rep_remaining:
  assumes f: "\<And>st st'. st' \<in> set (f st) \<Longrightarrow> remaining st' \<le> remaining st"
  shows "st' \<in> set (rep n lo hi f st) \<Longrightarrow> remaining st' \<le> remaining st"
proof (induction n arbitrary: lo hi st)
  case 0
  then show ?case by (auto split: if_splits)
next
  case (Suc n)
  show ?case
  proof (cases "hi = Some 0")
    case True
    with Suc.prems show ?thesis by (auto split: if_splits)
  next
    case False
    show ?thesis
    proof (cases "0 < lo")
      case True
      with False Suc.prems obtain st1 where
        "st1 \<in> set (f st)" "st' \<in> set (rep n (lo - 1) (map_option (\<lambda>h. h - 1) hi) f st1)"
        by auto
      with Suc.IH [of "lo - 1" _ st1] f [of st1 st] show ?thesis by fastforce
    next
      case lo: False
      with False Suc.prems have
        "st' = st \<or> (\<exists>st1 \<in> set (f st). remaining st1 < remaining st
            \<and> st' \<in> set (rep n 0 (map_option (\<lambda>h. h - 1) hi) f st1))"
        by (auto split: if_splits)
      with Suc.IH [of 0] show ?thesis by fastforce
    qed
  qed
qed

lemma rmatch_remaining:
  "st' \<in> set (rmatch r st) \<Longrightarrow> remaining st' \<le> remaining st"
proof (induction r arbitrary: st st')
  case (Seq a b)
  then obtain st1 where "st1 \<in> set (rmatch a st)" "st' \<in> set (rmatch b st1)" by auto
  with Seq.IH [of st1 st] Seq.IH(2) [of st' st1] show ?case by simp
next
  case (Repeat lo hi r)
  from Repeat.prems have "st' \<in> set (rep (lo + remaining st) lo hi (rmatch r) st)" by simp
  then show ?case by (rule rep_remaining [rotated]) (rule Repeat.IH)
next
  case (Group g r)
  then obtain st1 where s: "st1 \<in> set (rmatch r st)" "st' = set_group g st st1" by auto
  then have "remaining st' = remaining st1"
    by (simp add: set_group_def remaining_def split: prod.splits)
  with Group.IH [OF s(1)] show ?case by simp
qed (auto simp: one_char_remaining split: if_splits)

lemma rep_fuel_step:
  assumes f: "\<And>st st'. st' \<in> set (f st) \<Longrightarrow> remaining st' \<le> remaining st"
  shows "lo + remaining st \<le> n \<Longrightarrow> rep (Suc n) lo hi f st = rep n lo hi f st"
proof (induction n arbitrary: lo hi st)
  case 0
  then show ?case by (simp cong: map_cong)
next
  case (Suc n)
  show ?case
  proof (cases "hi = Some 0")
    case True
    then show ?thesis by simp
  next
    case False
    show ?thesis
    proof (cases "0 < lo")
      case True
      have "map (rep (Suc n) (lo - 1) (map_option (\<lambda>h. h - 1) hi) f) (f st)
          = map (rep n (lo - 1) (map_option (\<lambda>h. h - 1) hi) f) (f st)"
      proof (rule map_cong [OF refl])
        fix st1 assume "st1 \<in> set (f st)"
        from f [OF this] True Suc.prems have "lo - 1 + remaining st1 \<le> n" by simp
        then show "rep (Suc n) (lo - 1) (map_option (\<lambda>h. h - 1) hi) f st1
            = rep n (lo - 1) (map_option (\<lambda>h. h - 1) hi) f st1"
          by (rule Suc.IH)
      qed
      moreover have "rep (Suc (Suc n)) lo hi f st
          = concat (map (rep (Suc n) (lo - 1) (map_option (\<lambda>h. h - 1) hi) f) (f st))"
        by (subst rep.simps(2)) (simp add: True False del: rep.simps)
      moreover have "rep (Suc n) lo hi f st
          = concat (map (rep n (lo - 1) (map_option (\<lambda>h. h - 1) hi) f) (f st))"
        by (subst rep.simps(2)) (simp add: True False del: rep.simps)
      ultimately show ?thesis by (simp only:)
    next
      case lo: False
      have "map (\<lambda>st1. if remaining st1 < remaining st
                then rep (Suc n) 0 (map_option (\<lambda>h. h - 1) hi) f st1 else []) (f st)
          = map (\<lambda>st1. if remaining st1 < remaining st
                then rep n 0 (map_option (\<lambda>h. h - 1) hi) f st1 else []) (f st)"
      proof (rule map_cong [OF refl])
        fix st1 assume "st1 \<in> set (f st)"
        show "(if remaining st1 < remaining st
                then rep (Suc n) 0 (map_option (\<lambda>h. h - 1) hi) f st1 else [])
            = (if remaining st1 < remaining st
                then rep n 0 (map_option (\<lambda>h. h - 1) hi) f st1 else [])"
        proof (cases "remaining st1 < remaining st")
          case True
          with Suc.prems have "0 + remaining st1 \<le> n" by simp
          from Suc.IH [OF this] True show ?thesis by (simp del: rep.simps)
        next
          case False
          then show ?thesis by simp
        qed
      qed
      moreover have "rep (Suc (Suc n)) lo hi f st
          = concat (map (\<lambda>st1. if remaining st1 < remaining st
                then rep (Suc n) 0 (map_option (\<lambda>h. h - 1) hi) f st1 else []) (f st)) @ [st]"
        by (subst rep.simps(2)) (simp add: lo False del: rep.simps)
      moreover have "rep (Suc n) lo hi f st
          = concat (map (\<lambda>st1. if remaining st1 < remaining st
                then rep n 0 (map_option (\<lambda>h. h - 1) hi) f st1 else []) (f st)) @ [st]"
        by (subst rep.simps(2)) (simp add: lo False del: rep.simps)
      ultimately show ?thesis by (simp only:)
    qed
  qed
qed

lemma rep_fuel:
  "lo + remaining st \<le> n \<Longrightarrow> rep n lo hi (rmatch r) st = rmatch (Repeat lo hi r) st"
proof (induction n)
  case 0
  then show ?case by simp
next
  case (Suc n)
  show ?case
  proof (cases "lo + remaining st \<le> n")
    case True
    from rep_fuel_step [of "rmatch r", OF rmatch_remaining True] Suc.IH [OF True]
    show ?thesis by simp
  next
    case False
    with Suc.prems have "Suc n = lo + remaining st" by simp
    then show ?thesis by simp
  qed
qed

section \<open>The header filter\<close>

lemma compiles_match: "compiles p \<Longrightarrow> \<exists>b. re_match p s = Inr b"
  by (auto simp: compiles_def re_match_def split: sum.splits)

lemma scan_patterns_result:
  "scan_patterns ps s n = Inr (b, n') \<Longrightarrow>
     b = (\<exists>p \<in> set ps. re_match p s = Inr True) \<and> n' = (if b then n + 1 else n)"
proof (induction ps)
  case Nil
  then show ?case by auto
next
  case (Cons p ps)
  show ?case
  proof (cases "re_match p s")
    case (Inl err)
    with Cons.prems show ?thesis by simp
  next
    case (Inr hit)
    show ?thesis
    proof (cases hit)
      case True
      with Inr Cons.prems show ?thesis by auto
    next
      case False
      with Inr Cons.prems have "scan_patterns ps s n = Inr (b, n')" by simp
      from Cons.IH [OF this] Inr False show ?thesis by auto
    qed
  qed
qed

lemma scan_patterns_total:
  "list_all compiles ps \<Longrightarrow> \<exists>b n'. scan_patterns ps s n = Inr (b, n')"
proof (induction ps)
  case Nil
  then show ?case by auto
next
  case (Cons p ps)
  then obtain hit where "re_match p s = Inr hit"
    using compiles_match [of p s] by auto
  with Cons show ?case by (cases hit) auto
qed

lemma remove_headers_loop_result:
  "remove_headers_loop ps ls cl n = Inr (kept, n') \<Longrightarrow>
     kept = cl @ filter (\<lambda>l. \<not> is_header ps l) ls
     \<and> n' = n + int (length (filter (is_header ps) ls))"
proof (induction ls arbitrary: cl n)
  case Nil
  then show ?case by simp
next
  case (Cons l ls)
  from Cons.prems obtain b m where sp: "scan_patterns ps (strip l) n = Inr (b, m)"
    by (auto split: sum.splits)
  from scan_patterns_result [OF sp]
  have b: "b = is_header ps l" and m: "m = (if b then n + 1 else n)"
    by (auto simp: is_header_def)
  from Cons.prems sp
  have "remove_headers_loop ps ls (if \<not> b then cl @ [l] else cl) m = Inr (kept, n')"
    by simp
  from Cons.IH [OF this] b m show ?case by auto
qed

lemma remove_headers_loop_total:
  "list_all compiles ps \<Longrightarrow> \<exists>kept n'. remove_headers_loop ps ls cl n = Inr (kept, n')"
proof (induction ls arbitrary: cl n)
  case Nil
  then show ?case by simp
next
  case (Cons l ls)
  from scan_patterns_total [OF Cons.prems]
  obtain b m where "scan_patterns ps (strip l) n = Inr (b, m)" by blast
  with Cons.IH [OF Cons.prems] show ?case by simp
qed

text \<open>
  Claim C4. For every line sequence and every header-pattern list, the header filter
  removes exactly the lines whose trimmed content some pattern matches as a prefix,
  keeps the other lines unchanged and in order, and reports the number of lines removed.
  When every pattern compiles the filter returns; whenever it returns (a pattern that is
  never tried need not compile), its result is the one described.
\<close>

theorem remove_headers_filter:
  "(list_all compiles patterns \<longrightarrow> (\<exists>kept n. remove_headers lines patterns = Inr (kept, n)))
   \<and> (\<forall>kept n. remove_headers lines patterns = Inr (kept, n) \<longrightarrow>
         kept = filter (\<lambda>l. \<not> is_header patterns l) lines
         \<and> n = int (length (filter (is_header patterns) lines)))"
  unfolding remove_headers_def
  using remove_headers_loop_total [of patterns lines "[]" 0]
    remove_headers_loop_result [of patterns lines "[]" 0]
  by auto

theorem remove_headers_filter_witness:
  "list_all compiles [page_number_pattern]
   \<and> remove_headers [''1'', ''The cat'', '' 22 '', ''3 mice''] [page_number_pattern]
       = Inr ([''The cat'', ''3 mice''], 2)
   \<and> filter (\<lambda>l. \<not> is_header [page_number_pattern] l) [''1'', ''The cat'', '' 22 '', ''3 mice'']
       = [''The cat'', ''3 mice'']
   \<and> int (length (filter (is_header [page_number_pattern]) [''1'', ''The cat'', '' 22 '', ''3 mice''])) = 2"
proof -
  have c: "list_all compiles [page_number_pattern]" by code_simp
  have r: "remove_headers [''1'', ''The cat'', '' 22 '', ''3 mice''] [page_number_pattern]
       = Inr ([''The cat'', ''3 mice''], 2)" by code_simp
  from remove_headers_filter [of "[page_number_pattern]" "[''1'', ''The cat'', '' 22 '', ''3 mice'']"] r c
  show ?thesis by simp
qed

text \<open>
  Claim C10. The pair returned by \<open>_remove_headers\<close> satisfies
  \<open>length kept_lines + headers_removed = length lines\<close>, and the kept lines are a
  subsequence of the input in the original order.
\<close>

theorem remove_headers_conservation:
  "remove_headers lines patterns = Inr (kept, n) \<Longrightarrow>
     int (length kept) + n = int (length lines) \<and> subseq kept lines"
proof -
  assume "remove_headers lines patterns = Inr (kept, n)"
  then have k: "kept = filter (\<lambda>l. \<not> is_header patterns l) lines"
    and n: "n = int (length (filter (is_header patterns) lines))"
    using remove_headers_loop_result [of patterns lines "[]" 0 kept n]
    by (simp_all add: remove_headers_def)
  have "length (filter (is_header patterns) lines) + length (filter (\<lambda>l. \<not> is_header patterns l) lines)
      = length lines"
    by (rule sum_length_filter_compl)
  with k n show ?thesis by auto
qed

theorem remove_headers_conservation_witness:
  "remove_headers [''Page 1'', ''12'', ''text''] [page_number_pattern] = Inr ([''Page 1'', ''text''], 1)
   \<and> int (length [''Page 1'', ''text'']) + 1 = int (length [''Page 1'', ''12'', ''text''])
   \<and> subseq [''Page 1'', ''text''] [''Page 1'', ''12'', ''text'']"
proof -
  have r: "remove_headers [''Page 1'', ''12'', ''text''] [page_number_pattern]
      = Inr ([''Page 1'', ''text''], 1)" by code_simp
  from remove_headers_conservation [OF r] r show ?thesis by simp
qed

section \<open>The quality score\<close>



section \<open>The table detector\<close>

lemma starts_after_Nil: "starts_after P b [] = []"
  by (simp add: starts_after_def)

lemma starts_after_Cons:
  "length (starts_after P b (x # xs)) =
     (if P x \<and> \<not> b then 1 else 0) + length (starts_after P (P x) xs)"
proof -
  have u: "[0..<length (x # xs)] = 0 # map Suc [0..<length xs]"
    by (simp add: upt_conv_Cons map_Suc_upt del: upt_Suc)
  have f: "filter (\<lambda>i. P ((x # xs) ! i) \<and> (if i = 0 then \<not> b else \<not> P ((x # xs) ! (i - 1))))
              (map Suc [0..<length xs])
      = map Suc (filter (\<lambda>i. P (xs ! i) \<and> (if i = 0 then \<not> P x else \<not> P (xs ! (i - 1))))
              [0..<length xs])"
    unfolding filter_map
    by (rule arg_cong [where f = "map Suc"], rule filter_cong) (auto simp: nth_Cons')
  show ?thesis
    unfolding starts_after_def u by (simp add: f del: upt_Suc)
qed

lemma run_starts_after: "run_starts P xs = starts_after P False xs"
  unfolding run_starts_def starts_after_def by (rule filter_cong) auto

text \<open>Splitting on the pipe yields one segment more than the line has pipes: a line is
  table-like exactly when it holds two pipes or more.\<close>

lemma split_from_pipes:
  "length (split_from [c] acc s) = count_list s c + 1"
  by (induction "[c]" acc s rule: split_from.induct) (auto simp: startswith_def)

lemma table_like_two_pipes: "table_like l = (2 \<le> count_list l (CHR ''|''))"
proof (cases "CHR ''|'' \<in> set l")
  case True
  then show ?thesis by (simp add: table_like_def str_split_def split_from_pipes)
next
  case False
  then have "count_list l (CHR ''|'') = 0" by (simp add: count_list_0_iff)
  with False show ?thesis by (simp add: table_like_def)
qed

lemma tables_loop_count:
  "tables_loop ls d b = d + int (length (starts_after table_like b ls))"
proof (induction ls arbitrary: d b)
  case Nil
  then show ?case by (simp add: starts_after_Nil)
next
  case (Cons l ls)
  show ?case
    by (cases "table_like l"; cases b) (simp_all add: Cons.IH starts_after_Cons)
qed

lemma tables_loop_run:
  "ls \<noteq> [] \<Longrightarrow> list_all table_like ls \<Longrightarrow>
     tables_loop (ls @ rest) d b = tables_loop rest (if b then d else d + 1) True"
proof (induction ls arbitrary: d b)
  case Nil
  then show ?case by simp
next
  case (Cons l ls)
  then show ?case by (cases "ls = []") auto
qed

text \<open>
  Claim C8. A line is table-like when it contains the pipe character and splitting on it
  yields at least three segments. The table detector returns the lines unchanged and
  counts every maximal run of consecutive table-like lines once: three consecutive
  table-like lines count as one table, and two runs separated by a blank line as two.
\<close>

theorem detect_tables_runs:
  "detect_tables lines = (lines, int (length (run_starts table_like lines)))
   \<and> (\<forall>a b c. table_like a \<and> table_like b \<and> table_like c \<longrightarrow>
         detect_tables [a, b, c] = ([a, b, c], 1))
   \<and> (\<forall>xs ys. xs \<noteq> [] \<and> list_all table_like xs \<and> ys \<noteq> [] \<and> list_all table_like ys \<longrightarrow>
         detect_tables (xs @ [[]] @ ys) = (xs @ [[]] @ ys, 2))"
proof -
  have blank: "\<not> table_like []" by (simp add: table_like_def)
  have one: "\<And>ls d b. ls \<noteq> [] \<Longrightarrow> list_all table_like ls \<Longrightarrow>
      tables_loop ls d b = (if b then d else d + 1)"
    using tables_loop_run [where rest = "[]"] by simp
  have two: "\<And>xs ys. xs \<noteq> [] \<Longrightarrow> list_all table_like xs \<Longrightarrow> ys \<noteq> [] \<Longrightarrow> list_all table_like ys \<Longrightarrow>
      tables_loop (xs @ [[]] @ ys) 0 False = 2"
    using blank by (simp add: tables_loop_run one)
  have p1: "detect_tables lines = (lines, int (length (run_starts table_like lines)))"
    by (simp add: detect_tables_def tables_loop_count run_starts_after)
  have p2: "\<forall>a b c. table_like a \<and> table_like b \<and> table_like c \<longrightarrow>
         detect_tables [a, b, c] = ([a, b, c], 1)"
    by (simp add: detect_tables_def)
  have p3: "\<forall>xs ys. xs \<noteq> [] \<and> list_all table_like xs \<and> ys \<noteq> [] \<and> list_all table_like ys \<longrightarrow>
         detect_tables (xs @ [[]] @ ys) = (xs @ [[]] @ ys, 2)"
    using two by (simp add: detect_tables_def)
  from p1 p2 p3 show ?thesis by blast
qed

theorem detect_tables_runs_witness:
  "detect_tables [''|a|b|'', ''|-|-|'', ''|1|2|''] = ([''|a|b|'', ''|-|-|'', ''|1|2|''], 1)
   \<and> table_like ''|a|b|'' \<and> table_like ''|-|-|'' \<and> table_like ''|1|2|''
   \<and> detect_tables ([''x|y|z'', ''1|2|3''] @ [[]] @ [''p|q|r'']) =
        ([''x|y|z'', ''1|2|3''] @ [[]] @ [''p|q|r''], 2)
   \<and> list_all table_like [''x|y|z'', ''1|2|3''] \<and> list_all table_like [''p|q|r'']
   \<and> run_starts table_like [''x|y|z'', ''1|2|3'', [], ''p|q|r'', ''a|b''] = [0, 3]"
proof -
  have t: "table_like ''|a|b|'' \<and> table_like ''|-|-|'' \<and> table_like ''|1|2|''" by code_simp
  have l: "[''x|y|z'', ''1|2|3''] \<noteq> [] \<and> list_all table_like [''x|y|z'', ''1|2|3'']
    \<and> [''p|q|r''] \<noteq> [] \<and> list_all table_like [''p|q|r'']" by code_simp
  have r: "run_starts table_like [''x|y|z'', ''1|2|3'', [], ''p|q|r'', ''a|b''] = [0, 3]"
    by code_simp
  from detect_tables_runs [of "[]"] t l r show ?thesis by blast
qed

section \<open>Special lines and the paragraph reconstructor\<close>

text \<open>
  Every built-in pattern compiles, and the fourth one, \<open>^\\|\<close>, reads as an
  alternation whose second branch is empty: it matches every string. So
  \<open>_is_special_line\<close> answers \<open>True\<close> for every line on which it returns, and the
  reconstructor emits every non-blank line as a special line, right-trimmed.
\<close>

lemma special_patterns_compile: "list_all compiles special_patterns"
  by code_simp

lemma table_row_pattern:
  "re_compile (special_patterns ! 3) = Inr (Alt (Seq AtBegin (Lit BSL)) Eps)"
  by code_simp


lemma any_match_hit:
  "i < length ps \<Longrightarrow> re_match (ps ! i) s = Inr True \<Longrightarrow> list_all compiles (take i ps)
     \<Longrightarrow> any_match ps s = Inr True"
proof (induction ps arbitrary: i)
  case Nil
  then show ?case by simp
next
  case (Cons p ps)
  show ?case
  proof (cases i)
    case 0
    with Cons.prems show ?thesis by simp
  next
    case (Suc j)
    with Cons.prems have "compiles p" by simp
    then obtain hit where h: "re_match p s = Inr hit"
      using compiles_match [of p s] by auto
    from Suc Cons.prems have "any_match ps s = Inr True"
      by (intro Cons.IH [of j]) simp_all
    with h show ?thesis by simp
  qed
qed

lemma any_match_special: "any_match special_patterns s = Inr True"
proof (rule any_match_hit [of 3])
  show "3 < length special_patterns" by (simp add: special_patterns_def)
  show "re_match (special_patterns ! 3) s = Inr True"
    by (simp add: re_match_def table_row_pattern)
  show "list_all compiles (take 3 special_patterns)"
    using special_patterns_compile
    by (auto simp: list_all_iff dest: in_set_takeD)
qed

lemma is_special_line_True: "is_special_line l p = Inr b \<Longrightarrow> b"
  by (auto simp: is_special_line_def any_match_special split: sum.splits if_splits)


lemma rstrip_idem: "rstrip (rstrip s) = rstrip s"
  by (simp add: rstrip_def)

lemma flush_empty: "flush ml [] = ml"
  by (simp add: flush_def)

lemma merge_loop_special:
  "\<forall>l \<in> set ls. rstrip l \<noteq> [] \<longrightarrow> is_special_line (rstrip l) p = Inr True \<Longrightarrow>
     merge_loop p ls (ml, [], n) = Inr (ml @ map rstrip ls, [], n)"
proof (induction ls arbitrary: ml)
  case Nil
  then show ?case by simp
next
  case (Cons l ls)
  then show ?case by (cases "rstrip l = []") (simp_all add: flush_empty)
qed

lemma merge_loop_returns:
  "merge_loop p ls (ml, [], n) = Inr st \<Longrightarrow>
     \<forall>l \<in> set ls. rstrip l \<noteq> [] \<longrightarrow> is_special_line (rstrip l) p = Inr True"
proof (induction ls arbitrary: ml)
  case Nil
  then show ?case by simp
next
  case (Cons l ls)
  show ?case
  proof (cases "rstrip l = []")
    case True
    with Cons.prems have "merge_loop p ls (ml @ [[]], [], n) = Inr st"
      by (simp add: flush_empty)
    from Cons.IH [OF this] True show ?thesis by simp
  next
    case False
    with Cons.prems obtain b where b: "is_special_line (rstrip l) p = Inr b"
      by (auto split: sum.splits)
    then have "b" by (rule is_special_line_True)
    with b False Cons.prems have "merge_loop p ls (ml @ [rstrip l], [], n) = Inr st"
      by (simp add: flush_empty)
    from Cons.IH [OF this] b \<open>b\<close> show ?thesis by simp
  qed
qed

lemma merge_paragraphs_result:
  "merge_paragraphs ls p = Inr (out, n) \<Longrightarrow> out = map rstrip ls \<and> n = 0"
proof -
  assume a: "merge_paragraphs ls p = Inr (out, n)"
  then obtain st where st: "merge_loop p ls ([], [], 0) = Inr st"
    by (auto simp: merge_paragraphs_def split: sum.splits)
  from merge_loop_special [OF merge_loop_returns [OF st], of "[]" 0] a
  show ?thesis by (simp add: merge_paragraphs_def flush_empty)
qed


text \<open>
  Claim C7. Idempotence of the paragraph reconstructor: for every line sequence and every
  profile, running the reconstructor's output lines through the reconstructor again with
  the same profile returns the same lines and counts no merge: the merged output is a
  fixed point.
\<close>

theorem merge_paragraphs_fixed_point:
  "merge_paragraphs lines p = Inr (out, n) \<Longrightarrow> merge_paragraphs out p = Inr (out, 0)"
proof -
  assume a: "merge_paragraphs lines p = Inr (out, n)"
  then obtain st where st: "merge_loop p lines ([], [], 0) = Inr st"
    by (auto simp: merge_paragraphs_def split: sum.splits)
  have sp: "\<forall>l \<in> set lines. rstrip l \<noteq> [] \<longrightarrow> is_special_line (rstrip l) p = Inr True"
    by (rule merge_loop_returns [OF st])
  from merge_loop_special [OF sp, of "[]" 0] a have out: "out = map rstrip lines"
    by (simp add: merge_paragraphs_def flush_empty)
  have "\<forall>l \<in> set out. rstrip l \<noteq> [] \<longrightarrow> is_special_line (rstrip l) p = Inr True"
    using sp by (auto simp: out rstrip_idem)
  from merge_loop_special [OF this, of "[]" 0] show ?thesis
    by (simp add: merge_paragraphs_def flush_empty out rstrip_idem)
qed

theorem merge_paragraphs_fixed_point_witness:
  "merge_paragraphs [''Lesson 3  '', ''The cat '', ''sat on'', ''   '', ''the mat.''] textbook_profile
     = Inr ([''Lesson 3'', ''The cat'', ''sat on'', [], ''the mat.''], 0)
   \<and> merge_paragraphs [''Lesson 3'', ''The cat'', ''sat on'', [], ''the mat.''] textbook_profile
     = Inr ([''Lesson 3'', ''The cat'', ''sat on'', [], ''the mat.''], 0)"
proof -
  have r: "merge_paragraphs [''Lesson 3  '', ''The cat '', ''sat on'', ''   '', ''the mat.''] textbook_profile
     = Inr ([''Lesson 3'', ''The cat'', ''sat on'', [], ''the mat.''], 0)"
    by code_simp
  from merge_paragraphs_fixed_point [OF r] r show ?thesis by simp
qed

text \<open>
  Claim C5, as stated, fails on the code: under the default profile the lines
  \<open>Hello **wor\<close> and \<open>ld** there\<close> are not merged into \<open>Hello **world** there\<close>.
\<close>

theorem split_bold_not_repaired:
  "merge_paragraphs [''Hello **wor'', ''ld** there''] plain_profile
     = Inr ([''Hello **wor'', ''ld** there''], 0)
   \<and> [''Hello **wor'', ''ld** there''] \<noteq> [''Hello **world** there'']"
  by code_simp

lemma fix_split_formatting_markers:
  "fix_split_formatting prev cur \<noteq> [] \<Longrightarrow>
     endswith (rstrip prev) ''*'' \<and> startswith cur ''*''"
proof -
  have s: "\<And>x. suffix ''**'' x \<Longrightarrow> suffix ''*'' x"
    by (auto simp: suffix_def)
  have p: "\<And>x. prefix ''**'' x \<Longrightarrow> prefix ''*'' x"
    by (auto simp: prefix_def)
  assume "fix_split_formatting prev cur \<noteq> []"
  then show ?thesis
    by (auto simp: fix_split_formatting_def endswith_def startswith_def
        split: if_splits dest: s p)
qed

text \<open>
  Claim C5, amended. The split-formatting repair leaves the lines \<open>Hello **wor\<close> and
  \<open>ld** there\<close> alone (it returns the empty string): it splices only when the
  right-trimmed previous line ends with an emphasis marker and the current line begins
  with one. Whatever the profile, the reconstructor never returns the single line
  \<open>Hello **world** there\<close> for these two lines, and its output holds the four
  asterisks of the input, none duplicated and none lost.
\<close>

theorem split_bold_amended:
  "fix_split_formatting ''Hello **wor'' ''ld** there'' = []
   \<and> (\<forall>prev cur. fix_split_formatting prev cur \<noteq> [] \<longrightarrow>
         endswith (rstrip prev) ''*'' \<and> startswith cur ''*'')
   \<and> (\<forall>p out n. merge_paragraphs [''Hello **wor'', ''ld** there''] p = Inr (out, n) \<longrightarrow>
         out \<noteq> [''Hello **world** there''] \<and> count_list (concat out) (CHR ''*'') = 4)"
proof -
  have a: "fix_split_formatting ''Hello **wor'' ''ld** there'' = []" by code_simp
  have r: "map rstrip [''Hello **wor'', ''ld** there''] = [''Hello **wor'', ''ld** there'']"
    by code_simp
  have c: "\<forall>p out n. merge_paragraphs [''Hello **wor'', ''ld** there''] p = Inr (out, n) \<longrightarrow>
         out \<noteq> [''Hello **world** there''] \<and> count_list (concat out) (CHR ''*'') = 4"
  proof (intro allI impI)
    fix p out n
    assume "merge_paragraphs [''Hello **wor'', ''ld** there''] p = Inr (out, n)"
    from merge_paragraphs_result [OF this] r
    have "out = [''Hello **wor'', ''ld** there'']" by simp
    then show "out \<noteq> [''Hello **world** there''] \<and> count_list (concat out) (CHR ''*'') = 4"
      by simp
  qed
  from a c fix_split_formatting_markers show ?thesis by blast
qed

theorem split_bold_amended_witness:
  "merge_paragraphs [''Hello **wor'', ''ld** there''] plain_profile
     = Inr ([''Hello **wor'', ''ld** there''], 0)
   \<and> [''Hello **wor'', ''ld** there''] \<noteq> [''Hello **world** there'']
   \<and> count_list (concat [''Hello **wor'', ''ld** there'']) (CHR ''*'') = 4
   \<and> fix_split_formatting ''Hello **'' ''**world'' = ''Hello world''
   \<and> endswith (rstrip ''Hello **'') ''*'' \<and> startswith ''**world'' ''*''"
proof -
  have m: "merge_paragraphs [''Hello **wor'', ''ld** there''] plain_profile
     = Inr ([''Hello **wor'', ''ld** there''], 0)" by code_simp
  have f: "fix_split_formatting ''Hello **'' ''**world'' = ''Hello world''" by code_simp
  have g: "fix_split_formatting ''Hello **'' ''**world'' \<noteq> []" by (simp add: f)
  from split_bold_amended
  have q: "\<And>p out n. merge_paragraphs [''Hello **wor'', ''ld** there''] p = Inr (out, n) \<Longrightarrow>
         out \<noteq> [''Hello **world** there''] \<and> count_list (concat out) (CHR ''*'') = 4"
    and k: "\<And>prev cur. fix_split_formatting prev cur \<noteq> [] \<Longrightarrow>
         endswith (rstrip prev) ''*'' \<and> startswith cur ''*''"
    by blast+
  from q [OF m] k [OF g] m f show ?thesis by simp
qed

section \<open>Totality and pattern errors\<close>


















section \<open>The pipeline on concrete inputs\<close>

text \<open>
  Claim C1, the end-to-end scenario, evaluated on the code. The profile has the single
  header pattern \<open>^\d+\s*$\<close> and every toggle at its default. The scenario text holds
  no backslash, so the split leaves it as one line: no header is removed, nothing is
  merged, no reference is detected, and the text comes back unchanged; the claim's
  counts are 1, 2 and 1. On the text written with backslash, \<open>n\<close> as the separator the
  page-number line is removed, but still nothing is merged and no reference is detected.
\<close>

theorem end_to_end_scenario:
  "process_text scenario_text page_number_profile =
     Inr (scenario_text,
          \<lparr>paragraphs_merged = 0, headers_removed = 0, formatting_fixes = 0,
           lines_processed = 1, tables_detected = 0, figures_detected = 0,
           references_detected = 0, processing_time_seconds = 0, pages_processed = 0,
           word_count = 10\<rparr>)
   \<and> process_text scenario_text_escaped page_number_profile =
     Inr ([BSL, CHR ''n''] @ ''The cat'' @ [BSL, CHR ''n''] @ ''sat on'' @ [BSL, CHR ''n'']
            @ ''the mat.'' @ [BSL, CHR ''n'', BSL, CHR ''n''] @ ''References''
            @ [BSL, CHR ''n''] @ ''Smith, 2020.'',
          \<lparr>paragraphs_merged = 0, headers_removed = 1, formatting_fixes = 0,
           lines_processed = 8, tables_detected = 0, figures_detected = 0,
           references_detected = 0, processing_time_seconds = 0, pages_processed = 0,
           word_count = 5\<rparr>)"
  by code_simp

text \<open>
  What \<open>lines_processed\<close> counts: the pieces of the text between occurrences of the
  two characters backslash, \<open>n\<close>.
\<close>

lemma header_stage_lines_processed:
  "header_stage p st = Inr st' \<Longrightarrow> lines_processed (snd st') = lines_processed (snd st)"
  by (cases st) (auto simp: header_stage_def split: if_splits sum.splits)

lemma merging_stage_lines_processed:
  "merging_stage p st = Inr st' \<Longrightarrow> lines_processed (snd st') = lines_processed (snd st)"
  by (cases st) (auto simp: merging_stage_def split: if_splits sum.splits)

lemma table_stage_lines_processed:
  "lines_processed (snd (table_stage p st)) = lines_processed (snd st)"
  by (cases st) (auto simp: table_stage_def split: prod.splits)

lemma figure_stage_lines_processed:
  "figure_stage p st = Inr st' \<Longrightarrow> lines_processed (snd st') = lines_processed (snd st)"
  by (cases st) (auto simp: figure_stage_def split: if_splits sum.splits)

lemma reference_stage_lines_processed:
  "reference_stage p st = Inr st' \<Longrightarrow> lines_processed (snd st') = lines_processed (snd st)"
  by (cases st) (auto simp: reference_stage_def split: if_splits sum.splits)

lemma finish_stage_lines_processed:
  "finish_stage p st = Inr (final, m) \<Longrightarrow> lines_processed m = lines_processed (snd st)"
  by (cases st) (auto simp: finish_stage_def Let_def split: sum.splits)

lemma lines_processed_backslash_n:
  assumes "process_text t p = Inr (final, m)"
  shows "lines_processed m = int (length (str_split t [BSL, CHR ''n'']))"
proof -
  let ?ls = "str_split t [BSL, CHR ''n'']"
  let ?m = "new_metrics\<lparr>lines_processed := int (length ?ls)\<rparr>"
  from assms obtain st1 st2 st4 st5 where
    s1: "header_stage p (?ls, ?m) = Inr st1" and
    s2: "merging_stage p st1 = Inr st2" and
    s4: "figure_stage p (table_stage p st2) = Inr st4" and
    s5: "reference_stage p st4 = Inr st5" and
    s6: "finish_stage p st5 = Inr (final, m)"
    by (auto simp: process_text_def Let_def split: sum.splits)
  from header_stage_lines_processed [OF s1] merging_stage_lines_processed [OF s2]
    figure_stage_lines_processed [OF s4] reference_stage_lines_processed [OF s5]
    finish_stage_lines_processed [OF s6] table_stage_lines_processed [of p st2]
  show ?thesis by simp
qed

text \<open>
  Claim C2, evaluated on the code: for the text \<open>a\<close>, line feed, \<open>b\<close> the counter
  \<open>lines_processed\<close> is 1, while splitting the text on line feeds gives 2 lines.
\<close>

theorem lines_processed_newline:
  "process_text (''a'' @ [NL] @ ''b'') plain_profile =
     Inr (''a'' @ [NL] @ ''b'',
          \<lparr>paragraphs_merged = 0, headers_removed = 0, formatting_fixes = 0,
           lines_processed = 1, tables_detected = 0, figures_detected = 0,
           references_detected = 0, processing_time_seconds = 0, pages_processed = 0,
           word_count = 2\<rparr>)
   \<and> length (str_split (''a'' @ [NL] @ ''b'') [NL]) = 2"
  by code_simp

text \<open>
  Claim C6, evaluated on the code. The formatting normalizer rewrites the line
  \<open>exam- ple text\<close> to \<open>exa\1\2le text\<close>, the replacement template \<open>\\1\\2\<close> standing
  for the four characters backslash, 1, backslash, 2 rather than for the two groups; and
  the pipeline returns the two lines \<open>exam-\<close> and \<open>ple text\<close> unmerged, whether a line
  feed or backslash, \<open>n\<close> separates them.
\<close>

theorem hyphenation_not_repaired:
  "apply_formatting_fixes [''exam- ple text''] plain_profile =
     Inr ([''exa'' @ [BSL] @ ''1'' @ [BSL] @ ''2le text''], 1)
   \<and> process_text (''exam-'' @ [NL] @ ''ple text'') plain_profile =
       Inr (''exam-'' @ [NL] @ ''ple text'',
            \<lparr>paragraphs_merged = 0, headers_removed = 0, formatting_fixes = 0,
             lines_processed = 1, tables_detected = 0, figures_detected = 0,
             references_detected = 0, processing_time_seconds = 0, pages_processed = 0,
             word_count = 3\<rparr>)
   \<and> process_text (''exam-'' @ [BSL, CHR ''n''] @ ''ple text'') plain_profile =
       Inr (''exam-'' @ [BSL, CHR ''n''] @ ''ple text'',
            \<lparr>paragraphs_merged = 0, headers_removed = 0, formatting_fixes = 0,
             lines_processed = 2, tables_detected = 0, figures_detected = 0,
             references_detected = 0, processing_time_seconds = 0, pages_processed = 0,
             word_count = 2\<rparr>)"
  by code_simp

end
